theory Spec2Isabelle
  imports Main "HOL-Library.Word"
begin

section \<open>The fault catalog of crashtest.c\<close>

text \<open>
  \<^verbatim>\<open>enum ctype\<close> (lines 19-35): fifteen enumerators. A C enumerator is a name for an
  integer, numbered from 0 in declaration order; \<open>ctype_val\<close> is that numbering. The code
  produces values of the enumeration by integer arithmetic (\<^verbatim>\<open>return i + 1\<close>) and
  consumes them in a \<^verbatim>\<open>switch\<close> with a \<^verbatim>\<open>default\<close> label, so the functions below carry the
  integer and compare it with \<open>ctype_val\<close> of the enumerators.
\<close>

datatype ctype =
    CT_NONE
  | CT_PANIC
  | CT_BUG
  | CT_EXCEPTION
  | CT_LOOP
  | CT_OVERFLOW
  | CT_CORRUPT_STACK
  | CT_UNALIGNED_LOAD_STORE_WRITE
  | CT_OVERWRITE_ALLOCATION
  | CT_WRITE_AFTER_FREE
  | CT_SOFTLOCKUP
  | CT_HARDLOCKUP
  | CT_HUNG_TASK
  | CT_SCHEDULING_WHILE_ATOMIC
  | CT_DEADLOCK

fun ctype_val :: "ctype \<Rightarrow> int" where
  "ctype_val CT_NONE = 0"
| "ctype_val CT_PANIC = 1"
| "ctype_val CT_BUG = 2"
| "ctype_val CT_EXCEPTION = 3"
| "ctype_val CT_LOOP = 4"
| "ctype_val CT_OVERFLOW = 5"
| "ctype_val CT_CORRUPT_STACK = 6"
| "ctype_val CT_UNALIGNED_LOAD_STORE_WRITE = 7"
| "ctype_val CT_OVERWRITE_ALLOCATION = 8"
| "ctype_val CT_WRITE_AFTER_FREE = 9"
| "ctype_val CT_SOFTLOCKUP = 10"
| "ctype_val CT_HARDLOCKUP = 11"
| "ctype_val CT_HUNG_TASK = 12"
| "ctype_val CT_SCHEDULING_WHILE_ATOMIC = 13"
| "ctype_val CT_DEADLOCK = 14"

text \<open>\<^verbatim>\<open>static char *ct_type[]\<close> (lines 37-52): the names, in declaration order.\<close>

definition ct_type :: "string list" where
  "ct_type =
    [''PANIC'',
     ''BUG'',
     ''EXCEPTION'',
     ''LOOP'',
     ''OVERFLOW'',
     ''CORRUPT_STACK'',
     ''UNALIGNED_LOAD_STORE_WRITE'',
     ''OVERWRITE_ALLOCATION'',
     ''WRITE_AFTER_FREE'',
     ''SOFTLOCKUP'',
     ''HARDLOCKUP'',
     ''HUNG_TASK'',
     ''SCHEDULING_WHILE_ATOMIC'',
     ''DEADLOCK'']"

definition ARRAY_SIZE :: "'a list \<Rightarrow> nat" where
  "ARRAY_SIZE arr = length arr"

section \<open>C strings and the kernel's string helpers\<close>

text \<open>
  A \<^verbatim>\<open>char *\<close> is modelled by the bytes stored from the pointer on. The string it denotes
  ends at the first NUL byte; the end of the list stands for the terminator of a literal.
  \<open>cstr\<close> is the denoted string, \<open>strlen\<close> its length.
\<close>

definition NUL :: char where
  "NUL = CHR 0x00"

definition cstr :: "char list \<Rightarrow> string" where
  "cstr p = takeWhile (\<lambda>c. c \<noteq> NUL) p"

definition strlen :: "char list \<Rightarrow> nat" where
  "strlen p = length (cstr p)"

text \<open>
  \<^verbatim>\<open>strcmp\<close> of the kernel (lib/string.c): walk both strings as unsigned bytes, return
  -1 or 1 at the first difference and 0 when both end together.
\<close>

fun strcmp :: "char list \<Rightarrow> char list \<Rightarrow> int" where
  "strcmp [] [] = 0"
| "strcmp [] (c2 # ct) = (if c2 = NUL then 0 else - 1)"
| "strcmp (c1 # cs) [] = (if c1 = NUL then 0 else 1)"
| "strcmp (c1 # cs) (c2 # ct) =
     (if c1 \<noteq> c2 then (if (of_char c1 :: nat) < of_char c2 then - 1 else 1)
      else if c1 = NUL then 0
      else strcmp cs ct)"

text \<open>
  \<^verbatim>\<open>isspace\<close> of the kernel (lib/ctype.c): the bytes flagged \<^verbatim>\<open>_S\<close>, which are 9 to 13
  (tab, line feed, vertical tab, form feed, carriage return), 32 (space) and 160.
\<close>

definition isspace :: "char \<Rightarrow> bool" where
  "isspace c = ((9 \<le> (of_char c :: nat) \<and> (of_char c :: nat) \<le> 13)
                \<or> (of_char c :: nat) = 32 \<or> (of_char c :: nat) = 160)"

text \<open>
  \<^verbatim>\<open>strim\<close> of the kernel (lib/string.c) removes trailing white space in place and
  returns a pointer to the first byte that is not white space:
  \<^verbatim>\<open>
    size = strlen(s);
    if (!size) return s;
    end = s + size - 1;
    while (end >= s && isspace(*end)) end--;
    *(end + 1) = '\0';
    return skip_spaces(s);
  \<close>
  \<open>strim_end s n\<close> runs the loop with \<open>end + 1 = s + n\<close> and returns the final \<open>end + 1\<close>
  as an index. \<open>strim\<close> is the buffer afterwards. The only caller, \<^verbatim>\<open>procfs_write\<close>,
  discards the returned pointer, so it is not modelled.
\<close>

fun strim_end :: "char list \<Rightarrow> nat \<Rightarrow> nat" where
  "strim_end s 0 = 0"
| "strim_end s (Suc e) = (if isspace (s ! e) then strim_end s e else Suc e)"

definition strim :: "char list \<Rightarrow> char list" where
  "strim s = (let size = strlen s in
              if size = 0 then s else s[strim_end s size := NUL])"

section \<open>parse\_ct\_type (lines 58-67)\<close>

text \<open>
  \<^verbatim>\<open>
    for (i = 0; i < ARRAY_SIZE(ct_type); i++) {
        if (!strcmp(what, ct_type[i]))
            return i + 1;
    }
    return CT_NONE;
  \<close>
\<close>

function parse_ct_type_loop :: "char list \<Rightarrow> nat \<Rightarrow> int" where
  "parse_ct_type_loop what i =
     (if i < ARRAY_SIZE ct_type then
        (if strcmp what (ct_type ! i) = 0 then int i + 1
         else parse_ct_type_loop what (i + 1))
      else ctype_val CT_NONE)"
  by pat_completeness auto
termination
  by (relation "measure (\<lambda>(what, i). ARRAY_SIZE ct_type - i)") auto

declare parse_ct_type_loop.simps [simp del]

definition parse_ct_type :: "char list \<Rightarrow> int" where
  "parse_ct_type what = parse_ct_type_loop what 0"

section \<open>The machine the fault routines run on\<close>

text \<open>
  Constants of the kernel build that the module uses and does not define:
  \<^verbatim>\<open>THREAD_SIZE\<close> and \<^verbatim>\<open>sizeof(unsigned long)\<close>.
\<close>

record arch =
  THREAD_SIZE :: nat
  sizeof_ulong :: nat

datatype spinlock = lock1 | lock2

datatype ptr = NULL | Ptr nat

datatype block = Live nat | Freed nat

datatype task_state = TASK_RUNNING | TASK_UNINTERRUPTIBLE

text \<open>
  The calls into the kernel and the memory accesses of the fault routines, in the order
  they happen. A store is checked against the object it is aimed at: \<open>EvStore\<close> is a
  store inside a live heap block, \<open>EvBadStore\<close> one that is not, and \<open>EvStackFill n k b\<close>
  is a \<^verbatim>\<open>memset\<close> of \<open>k\<close> bytes \<open>b\<close> on a local array of \<open>n\<close> bytes.
\<close>

datatype event =
    EvSpinLock spinlock
  | EvSpinUnlock spinlock
  | EvStackFill nat nat "8 word"
  | EvKmalloc ptr nat
  | EvKfree ptr
  | EvBadFree ptr
  | EvStore ptr nat nat
  | EvBadStore ptr nat nat
  | EvLoad32 nat
  | EvStore32 nat "32 word"
  | EvSchedule
  | EvScheduleTimeout nat
  | EvPreemptDisable
  | EvIrqDisable
  | EvSetCurrentState task_state
  | EvDownRead
  | EvUpRead
  | EvReadLock
  | EvReadUnlock

text \<open>
  The state the module can observe or change: its three static variables
  (\<^verbatim>\<open>recur_count\<close> of \<^verbatim>\<open>recursive_loop\<close>, \<^verbatim>\<open>align_data\<close> of \<^verbatim>\<open>do_crash\<close>, the two
  spinlocks of \<^verbatim>\<open>deadlock_splat\<close> as the set of those held), the kmalloc heap (block
  sizes, the next fresh address and the bytes still available), the state of the calling
  task, the bytes of its kernel stack that are in use, and the trace of events.
\<close>

record kstate =
  recur_count :: "32 word"
  align_data :: "8 word list"
  held :: "spinlock set"
  heap :: "nat \<Rightarrow> block option"
  brk :: nat
  avail :: nat
  current_state :: task_state
  stack_used :: nat
  trace :: "event list"

text \<open>
  The state when the module is loaded: the initialisers of lines 83, 84, 103 and 144, and
  a stack with nothing on it.
\<close>

definition init_state :: "nat \<Rightarrow> kstate" where
  "init_state mem =
     \<lparr>recur_count = 40,
      align_data = [1, 2, 3, 4, 5],
      held = {},
      heap = (\<lambda>a. None),
      brk = 0,
      avail = mem,
      current_state = TASK_RUNNING,
      stack_used = 0,
      trace = []\<rparr>"

text \<open>
  How a call ends: it returns a value and a state, or control never comes back to the
  caller: \<^verbatim>\<open>panic\<close>, \<^verbatim>\<open>BUG\<close>, a fault on an unmapped address, a loop or wait that no one
  ends, a frame that no longer fits on the stack of \<^verbatim>\<open>THREAD_SIZE\<close> bytes, or a return
  through a frame whose saved registers and return address have been overwritten.
\<close>

datatype stop = Panicked string | Bugged | Oopsed | Hung | StackOverflow | StackCorrupted

datatype 'a outcome = Returns 'a kstate | Stops stop kstate

definition log :: "event \<Rightarrow> kstate \<Rightarrow> kstate" where
  "log e s = s\<lparr>trace := trace s @ [e]\<rparr>"

text \<open>Statements in sequence: the first that does not return ends the run.\<close>

fun run :: "(kstate \<Rightarrow> unit outcome) list \<Rightarrow> kstate \<Rightarrow> unit outcome" where
  "run [] s = Returns () s"
| "run (f # fs) s = (case f s of Returns _ s' \<Rightarrow> run fs s' | Stops r s' \<Rightarrow> Stops r s')"

subsection \<open>Kernel primitives\<close>

definition panic :: "string \<Rightarrow> kstate \<Rightarrow> unit outcome" where
  "panic msg s = Stops (Panicked msg) s"

definition BUG :: "kstate \<Rightarrow> unit outcome" where
  "BUG s = Stops Bugged s"

text \<open>\<^verbatim>\<open>for (;;) body\<close> with a body that returns and no exit: it never ends.\<close>

definition for_ever :: "kstate \<Rightarrow> unit outcome" where
  "for_ever s = Stops Hung s"

text \<open>
  A spinlock that is held is spun on until its holder releases it; within one
  sequential call no one does.
\<close>

definition spin_lock :: "spinlock \<Rightarrow> kstate \<Rightarrow> unit outcome" where
  "spin_lock l s =
     (if l \<in> held s then Stops Hung s
      else Returns () (log (EvSpinLock l) (s\<lparr>held := insert l (held s)\<rparr>)))"

definition spin_unlock :: "spinlock \<Rightarrow> kstate \<Rightarrow> unit outcome" where
  "spin_unlock l s = Returns () (log (EvSpinUnlock l) (s\<lparr>held := held s - {l}\<rparr>))"

text \<open>
  \<^verbatim>\<open>kmalloc\<close> returns a fresh block, or \<^verbatim>\<open>NULL\<close> when the request cannot be met;
  \<^verbatim>\<open>kfree(NULL)\<close> does nothing.
\<close>

definition kmalloc :: "nat \<Rightarrow> kstate \<Rightarrow> ptr \<times> kstate" where
  "kmalloc len s =
     (if len \<le> avail s then
        (Ptr (brk s),
         log (EvKmalloc (Ptr (brk s)) len)
           (s\<lparr>heap := (heap s)(brk s \<mapsto> Live len), brk := brk s + 1, avail := avail s - len\<rparr>))
      else (NULL, log (EvKmalloc NULL len) s))"

definition kfree :: "ptr \<Rightarrow> kstate \<Rightarrow> kstate" where
  "kfree p s =
     (case p of
        NULL \<Rightarrow> s
      | Ptr a \<Rightarrow>
          (case heap s a of
             Some (Live n) \<Rightarrow>
               log (EvKfree p) (s\<lparr>heap := (heap s)(a \<mapsto> Freed n), avail := avail s + n\<rparr>)
           | _ \<Rightarrow> log (EvBadFree p) s))"

text \<open>
  The guarded store: \<open>len\<close> bytes at byte offset \<open>off\<close> from \<open>p\<close>, allowed only inside a
  live block. The contents of blocks are never read by the module and are not kept.
\<close>

definition checked_store :: "ptr \<Rightarrow> nat \<Rightarrow> nat \<Rightarrow> kstate \<Rightarrow> kstate option" where
  "checked_store p off len s =
     (case p of
        NULL \<Rightarrow> None
      | Ptr a \<Rightarrow>
          (case heap s a of
             Some (Live n) \<Rightarrow> if off + len \<le> n then Some (log (EvStore p off len) s) else None
           | _ \<Rightarrow> None))"

text \<open>
  The store the C code performs has no guard: through \<^verbatim>\<open>NULL\<close> it faults; elsewhere it
  goes ahead, and where the guarded store fails it lands outside the object.
\<close>

definition store :: "ptr \<Rightarrow> nat \<Rightarrow> nat \<Rightarrow> kstate \<Rightarrow> unit outcome" where
  "store p off len s =
     (case p of
        NULL \<Rightarrow> Stops Oopsed s
      | Ptr a \<Rightarrow>
          (case checked_store p off len s of
             Some s' \<Rightarrow> Returns () s'
           | None \<Rightarrow> Returns () (log (EvBadStore p off len) s)))"

text \<open>\<^verbatim>\<open>schedule\<close> returns to a runnable task; a task that sleeps uninterruptibly is never woken.\<close>

definition schedule :: "kstate \<Rightarrow> unit outcome" where
  "schedule s =
     (if current_state s = TASK_RUNNING then Returns () (log EvSchedule s)
      else Stops Hung (log EvSchedule s))"

definition set_current_state :: "task_state \<Rightarrow> kstate \<Rightarrow> unit outcome" where
  "set_current_state st s = Returns () (log (EvSetCurrentState st) (s\<lparr>current_state := st\<rparr>))"

definition call :: "event \<Rightarrow> kstate \<Rightarrow> unit outcome" where
  "call e s = Returns () (log e s)"

section \<open>The fault routines (lines 69-117)\<close>

text \<open>\<^verbatim>\<open>scheduling_while_atomic\<close> (lines 69-79).\<close>

definition scheduling_while_atomic :: "kstate \<Rightarrow> unit outcome" where
  "scheduling_while_atomic s =
     run [call EvDownRead,
          call EvReadLock,
          call (EvScheduleTimeout 1),
          call EvReadUnlock,
          call EvUpRead] s"

text \<open>\<^verbatim>\<open>deadlock_splat\<close> (lines 81-97).\<close>

definition deadlock_splat :: "kstate \<Rightarrow> unit outcome" where
  "deadlock_splat s =
     run [spin_lock lock1,
          spin_lock lock2,
          spin_unlock lock2,
          spin_unlock lock1,
          spin_lock lock2,
          spin_lock lock1,
          spin_unlock lock1,
          spin_unlock lock2] s"

text \<open>
  \<^verbatim>\<open>recursive_loop\<close> (lines 99-112):
  \<^verbatim>\<open>
    static int recur_count = 40;
    char buf[BUFSIZE];

    memset(buf, 0xff, sizeof(buf));
    recur_count--;
    if (!recur_count) return 0;
    else return recursive_loop(a);
  \<close>
  \<^verbatim>\<open>recur_count\<close> is a 32-bit \<^verbatim>\<open>int\<close>; the kernel is built with wrapping signed arithmetic
  (\<^verbatim>\<open>-fno-strict-overflow\<close>), so the decrement is the one of \<open>32 word\<close>.

  The function is \<^verbatim>\<open>noinline\<close> and every call is a frame on the kernel stack of the
  calling task, which has \<^verbatim>\<open>THREAD_SIZE\<close> bytes. A frame holds the array \<^verbatim>\<open>buf\<close> and at
  least the return address, a pointer, which has the size of \<^verbatim>\<open>unsigned long\<close> on Linux.
  A call whose frame does not fit any more writes outside the stack and does not go on;
  a call that returns gives its frame back.
\<close>

definition BUFSIZE :: "arch \<Rightarrow> nat" where
  "BUFSIZE ar = THREAD_SIZE ar div 8"

definition frame_size :: "arch \<Rightarrow> nat" where
  "frame_size ar = BUFSIZE ar + sizeof_ulong ar"


function recursive_loop :: "arch \<Rightarrow> int \<Rightarrow> kstate \<Rightarrow> int outcome" where
  "recursive_loop ar a s =
     (if THREAD_SIZE ar < stack_used s + frame_size ar then Stops StackOverflow s
      else
        (let s0 = s\<lparr>stack_used := stack_used s + frame_size ar\<rparr>;
             s1 = log (EvStackFill (BUFSIZE ar) (BUFSIZE ar) 0xff) s0;
             s2 = s1\<lparr>recur_count := recur_count s1 - 1\<rparr>
         in if recur_count s2 = 0 then Returns 0 (s2\<lparr>stack_used := stack_used s\<rparr>)
            else
              (case recursive_loop ar a s2 of
                 Returns r s3 \<Rightarrow> Returns r (s3\<lparr>stack_used := stack_used s\<rparr>)
               | Stops st s3 \<Rightarrow> Stops st s3)))"
  by pat_completeness auto
termination
proof (relation "measure (\<lambda>(ar, a, s). unat (recur_count s - 1))", goal_cases)
  case 1
  show ?case by simp
next
  case (2 ar a s s0 s1 s2)
  have rc: "recur_count s2 = recur_count s - 1"
    using 2 by (simp add: log_def)
  have ne: "recur_count s2 \<noteq> 0"
    using 2 by simp
  have "unat (recur_count s2 - 1) = unat (recur_count s2) - 1"
    using ne by (rule unat_minus_one)
  moreover have "0 < unat (recur_count s2)"
    using ne by (simp only: unat_gt_0 not_False_eq_True)
  ultimately have "unat (recur_count s2 - 1) < unat (recur_count s - 1)"
    unfolding rc by linarith
  then show ?case by simp
qed

declare recursive_loop.simps [simp del]

text \<open>
  \<^verbatim>\<open>corrupt_stack\<close> (lines 114-117): \<^verbatim>\<open>memset(stack, 0xff, 64)\<close>. The argument is the
  size of the local array \<open>stack\<close> points to. Where the 64 bytes do not fit in the array
  they run over what lies above it in the frame that holds it, the saved registers, the
  canary and the return address: control does not come back from that frame.
\<close>

definition corrupt_stack :: "nat \<Rightarrow> kstate \<Rightarrow> unit outcome" where
  "corrupt_stack stack s =
     (if 64 \<le> stack then Returns () (log (EvStackFill stack 64 0xff) s)
      else Stops StackCorrupted (log (EvStackFill stack 64 0xff) s))"

section \<open>do\_crash (lines 119-196)\<close>

text \<open>
  The unaligned 32-bit load and store at \<^verbatim>\<open>align_data + 1\<close>, in little-endian byte order.
\<close>

definition load_u32 :: "8 word list \<Rightarrow> nat \<Rightarrow> 32 word" where
  "load_u32 bytes off = word_rcat (rev (take 4 (drop off bytes)))"

definition store_u32 :: "8 word list \<Rightarrow> nat \<Rightarrow> 32 word \<Rightarrow> 8 word list" where
  "store_u32 bytes off v =
     take off bytes
     @ [ucast v, ucast (drop_bit 8 v), ucast (drop_bit 16 v), ucast (drop_bit 24 v)]
     @ drop (off + 4) bytes"

definition unaligned_load_store_write :: "kstate \<Rightarrow> unit outcome" where
  "unaligned_load_store_write s =
     (let val = (if load_u32 (align_data s) 1 = 0 then 0x87654321 else 0x12345678)
      in Returns ()
           (log (EvStore32 1 val)
              ((log (EvLoad32 1) s)\<lparr>align_data := store_u32 (align_data s) 1 val\<rparr>)))"

text \<open>
  \<^verbatim>\<open>
    size_t len = 1020;
    unsigned long *data = kmalloc(len, GFP_KERNEL);

    data[1024 / sizeof(unsigned long)] = 0x12345678;
    kfree(data);
  \<close>
\<close>

definition overwrite_allocation :: "arch \<Rightarrow> kstate \<Rightarrow> unit outcome" where
  "overwrite_allocation ar s =
     (let len = 1020;
          (data, s1) = kmalloc len s
      in case store data ((1024 div sizeof_ulong ar) * sizeof_ulong ar) (sizeof_ulong ar) s1 of
           Returns _ s2 \<Rightarrow> Returns () (kfree data s2)
         | Stops r s2 \<Rightarrow> Stops r s2)"

text \<open>
  \<^verbatim>\<open>
    size_t len = 1024;
    u32 *data = kmalloc(len, GFP_KERNEL);

    kfree(data);
    schedule();
    memset(data, 0x78, len);
  \<close>
\<close>

definition write_after_free :: "kstate \<Rightarrow> unit outcome" where
  "write_after_free s =
     (let len = 1024;
          (data, s1) = kmalloc len s
      in run [schedule, store data 0 len] (kfree data s1))"

definition do_crash :: "arch \<Rightarrow> int \<Rightarrow> kstate \<Rightarrow> unit outcome" where
  "do_crash ar which s =
     (if which = ctype_val CT_PANIC then panic ''have a nice day... ;-)'' s
      else if which = ctype_val CT_BUG then BUG s
      else if which = ctype_val CT_EXCEPTION then store NULL 0 4 s
      else if which = ctype_val CT_LOOP then for_ever s
      else if which = ctype_val CT_OVERFLOW then
        (case recursive_loop ar 0 s of
           Returns _ s' \<Rightarrow> Returns () s'
         | Stops st s' \<Rightarrow> Stops st s')
      else if which = ctype_val CT_CORRUPT_STACK then corrupt_stack 8 s
      else if which = ctype_val CT_UNALIGNED_LOAD_STORE_WRITE then unaligned_load_store_write s
      else if which = ctype_val CT_OVERWRITE_ALLOCATION then overwrite_allocation ar s
      else if which = ctype_val CT_WRITE_AFTER_FREE then write_after_free s
      else if which = ctype_val CT_SOFTLOCKUP then run [call EvPreemptDisable, for_ever] s
      else if which = ctype_val CT_HARDLOCKUP then run [call EvIrqDisable, for_ever] s
      else if which = ctype_val CT_HUNG_TASK then
        run [set_current_state TASK_UNINTERRUPTIBLE, schedule] s
      else if which = ctype_val CT_SCHEDULING_WHILE_ATOMIC then scheduling_while_atomic s
      else if which = ctype_val CT_DEADLOCK then deadlock_splat s
      else Returns () s)"

section \<open>The proc file (lines 198-225)\<close>

text \<open>
  \<^verbatim>\<open>procfs_read\<close>: \<^verbatim>\<open>seq_printf(m, "%s\n", ct_type[i])\<close> for every index, then return 0.
  The \<^verbatim>\<open>seq_file\<close> is the text printed to it so far.
\<close>

definition seq_printf_line :: "string \<Rightarrow> string \<Rightarrow> string" where
  "seq_printf_line m str = m @ str @ [CHR 0x0A]"

function procfs_read_loop :: "string \<Rightarrow> nat \<Rightarrow> string" where
  "procfs_read_loop m i =
     (if i < ARRAY_SIZE ct_type
      then procfs_read_loop (seq_printf_line m (ct_type ! i)) (i + 1)
      else m)"
  by pat_completeness auto
termination
  by (relation "measure (\<lambda>(m, i). ARRAY_SIZE ct_type - i)") auto

declare procfs_read_loop.simps [simp del]

definition procfs_read :: "string \<Rightarrow> int \<times> string" where
  "procfs_read m = (0, procfs_read_loop m 0)"

text \<open>
  \<^verbatim>\<open>procfs_write\<close>. The user pointer \<open>ubuf\<close> is modelled by the bytes readable from it on:
  \<^verbatim>\<open>copy_from_user(buf, ubuf, count)\<close> succeeds when \<open>count\<close> of them exist and fails
  otherwise. \<^verbatim>\<open>E2BIG\<close> and \<^verbatim>\<open>EFAULT\<close> are the kernel's errno values.
  \<^verbatim>\<open>
    char buf[32] = {};

    if (count > sizeof(buf) - 1) return -E2BIG;
    if (copy_from_user(buf, ubuf, count)) return -EFAULT;
    buf[count] = '\0';
    strim(buf);
    do_crash(parse_ct_type(buf));
    return count;
  \<close>
\<close>

definition E2BIG :: int where
  "E2BIG = 7"

definition EFAULT :: int where
  "EFAULT = 14"

definition copy_from_user :: "char list \<Rightarrow> char list \<Rightarrow> nat \<Rightarrow> char list option" where
  "copy_from_user buf ubuf count =
     (if count \<le> length ubuf then Some (take count ubuf @ drop count buf) else None)"

definition procfs_write :: "arch \<Rightarrow> char list \<Rightarrow> nat \<Rightarrow> kstate \<Rightarrow> int outcome" where
  "procfs_write ar ubuf count s =
     (let buf = replicate 32 NUL in
      if count > length buf - 1 then Returns (- E2BIG) s
      else
        (case copy_from_user buf ubuf count of
           None \<Rightarrow> Returns (- EFAULT) s
         | Some buf1 \<Rightarrow>
             (case do_crash ar (parse_ct_type (strim (buf1[count := NUL]))) s of
                Returns _ s' \<Rightarrow> Returns (int count) s'
              | Stops r s' \<Rightarrow> Stops r s')))"

section \<open>Concrete inputs and the order of the enumerators\<close>

text \<open>
  A 64-bit build with kernel stacks of 16 KiB, for the statements that are evaluated at a
  concrete input.
\<close>

definition lp64 :: arch where
  "lp64 = \<lparr>THREAD_SIZE = 16384, sizeof_ulong = 8\<rparr>"

text \<open>
  The enumerators that follow \<open>CT_NONE\<close> in \<^verbatim>\<open>enum ctype\<close>, in the order of their
  declaration: the one at position \<open>i\<close> is the kind that the name \<open>ct_type ! i\<close> stands for.
\<close>

definition kinds :: "ctype list" where
  "kinds = [CT_PANIC, CT_BUG, CT_EXCEPTION, CT_LOOP, CT_OVERFLOW, CT_CORRUPT_STACK,
            CT_UNALIGNED_LOAD_STORE_WRITE, CT_OVERWRITE_ALLOCATION, CT_WRITE_AFTER_FREE,
            CT_SOFTLOCKUP, CT_HARDLOCKUP, CT_HUNG_TASK, CT_SCHEDULING_WHILE_ATOMIC, CT_DEADLOCK]"

section \<open>The lookup decides on the denoted string alone\<close>

lemma strcmp_0_iff: "strcmp a b = 0 \<longleftrightarrow> cstr a = cstr b"
  by (induction a b rule: strcmp.induct) (auto simp: cstr_def)

lemma cstr_names: "n \<in> set ct_type \<Longrightarrow> cstr n = n"
  by (auto simp: ct_type_def cstr_def NUL_def)

lemma distinct_ct_type: "distinct ct_type"
  by (simp add: ct_type_def)

lemma length_ct_type: "length ct_type = 14"
  by (simp add: ct_type_def)

lemma parse_loop_step:
  "i < length ct_type \<Longrightarrow> cstr what \<noteq> ct_type ! i \<Longrightarrow>
   parse_ct_type_loop what i = parse_ct_type_loop what (i + 1)"
proof -
  assume i: "i < length ct_type" and ne: "cstr what \<noteq> ct_type ! i"
  have "cstr (ct_type ! i) = ct_type ! i"
    using i by (simp add: cstr_names)
  with ne have "strcmp what (ct_type ! i) \<noteq> 0"
    by (simp add: strcmp_0_iff)
  with i show ?thesis
    by (subst parse_ct_type_loop.simps) (simp add: ARRAY_SIZE_def)
qed

lemma parse_loop_found:
  "i < length ct_type \<Longrightarrow> cstr what = ct_type ! i \<Longrightarrow> parse_ct_type_loop what i = int i + 1"
proof -
  assume i: "i < length ct_type" and eq: "cstr what = ct_type ! i"
  have "cstr (ct_type ! i) = ct_type ! i"
    using i by (simp add: cstr_names)
  with eq have "strcmp what (ct_type ! i) = 0"
    by (simp add: strcmp_0_iff)
  with i show ?thesis
    by (subst parse_ct_type_loop.simps) (simp add: ARRAY_SIZE_def)
qed

lemma parse_loop_end: "\<not> i < length ct_type \<Longrightarrow> parse_ct_type_loop what i = 0"
  by (subst parse_ct_type_loop.simps) (simp add: ARRAY_SIZE_def)

lemma parse_loop_none:
  "(\<And>j. i \<le> j \<Longrightarrow> j < length ct_type \<Longrightarrow> cstr what \<noteq> ct_type ! j) \<Longrightarrow>
   parse_ct_type_loop what i = 0"
proof (induction what i rule: parse_ct_type_loop.induct)
  case (1 what i)
  show ?case
  proof (cases "i < length ct_type")
    case True
    have ne: "cstr what \<noteq> ct_type ! i"
      using "1.prems"[of i] True by simp
    have cmp: "strcmp what (ct_type ! i) \<noteq> 0"
      using ne True cstr_names[of "ct_type ! i"] by (simp add: strcmp_0_iff)
    have "parse_ct_type_loop what (i + 1) = 0"
    proof (rule "1.IH")
      show "i < ARRAY_SIZE ct_type" using True by (simp add: ARRAY_SIZE_def)
      show "strcmp what (ct_type ! i) \<noteq> 0" by (rule cmp)
      show "\<And>j. i + 1 \<le> j \<Longrightarrow> j < length ct_type \<Longrightarrow> cstr what \<noteq> ct_type ! j"
        using "1.prems" by simp
    qed
    then show ?thesis using parse_loop_step[OF True ne] by simp
  next
    case False
    then show ?thesis by (rule parse_loop_end)
  qed
qed

lemma parse_loop_hit:
  "i \<le> k \<Longrightarrow> k < length ct_type \<Longrightarrow> cstr what = ct_type ! k \<Longrightarrow>
   parse_ct_type_loop what i = int k + 1"
proof (induction what i rule: parse_ct_type_loop.induct)
  case (1 what i)
  have lt: "i < length ct_type" using "1.prems" by simp
  show ?case
  proof (cases "i = k")
    case True
    then show ?thesis using parse_loop_found[of k what] "1.prems" by simp
  next
    case False
    have "ct_type ! i \<noteq> ct_type ! k"
      using distinct_ct_type False lt "1.prems" by (simp add: nth_eq_iff_index_eq)
    then have ne: "cstr what \<noteq> ct_type ! i"
      using "1.prems" by simp
    have cmp: "strcmp what (ct_type ! i) \<noteq> 0"
      using ne lt cstr_names[of "ct_type ! i"] by (simp add: strcmp_0_iff)
    have "parse_ct_type_loop what (i + 1) = int k + 1"
    proof (rule "1.IH")
      show "i < ARRAY_SIZE ct_type" using lt by (simp add: ARRAY_SIZE_def)
      show "strcmp what (ct_type ! i) \<noteq> 0" by (rule cmp)
      show "i + 1 \<le> k" using "1.prems" False by simp
      show "k < length ct_type" using "1.prems" by simp
      show "cstr what = ct_type ! k" using "1.prems" by simp
    qed
    then show ?thesis using parse_loop_step[OF lt ne] by simp
  qed
qed

lemma parse_miss: "cstr what \<notin> set ct_type \<Longrightarrow> parse_ct_type what = 0"
  unfolding parse_ct_type_def by (rule parse_loop_none) (metis nth_mem)

lemma parse_hit:
  "k < length ct_type \<Longrightarrow> cstr what = ct_type ! k \<Longrightarrow> parse_ct_type what = int k + 1"
  unfolding parse_ct_type_def by (rule parse_loop_hit) simp_all

lemma parse_cases:
  "(cstr what \<notin> set ct_type \<and> parse_ct_type what = 0)
   \<or> (\<exists>k < length ct_type. cstr what = ct_type ! k \<and> parse_ct_type what = int k + 1)"
proof (cases "cstr what \<in> set ct_type")
  case True
  then obtain k where "k < length ct_type" "ct_type ! k = cstr what"
    by (auto simp: in_set_conv_nth)
  then show ?thesis using parse_hit[of k what] by auto
next
  case False
  then show ?thesis by (simp add: parse_miss)
qed

lemma parse_cstr_cong: "cstr a = cstr b \<Longrightarrow> parse_ct_type a = parse_ct_type b"
  using parse_cases[of a] parse_cases[of b] parse_hit[of _ b] by auto

lemma kinds_val: "i < 14 \<Longrightarrow> ctype_val (kinds ! i) = int i + 1"
proof -
  have "map ctype_val kinds = map (\<lambda>i. int i + 1) [0..<14]"
    by (simp add: kinds_def upt_rec)
  moreover assume "i < 14"
  ultimately show ?thesis
    by (metis (no_types, lifting) add_0 length_map length_upt minus_nat.diff_0 nth_map nth_upt)
qed

lemma do_crash_none: "do_crash ar 0 s = Returns () s"
  by (simp add: do_crash_def)

section \<open>The claims about parse\_ct\_type and the dispatch of no fault\<close>

text \<open>
  C1. For every position \<open>i\<close> of the table \<open>ct_type\<close>, \<open>parse_ct_type\<close> of the name at \<open>i\<close>
  returns \<open>i + 1\<close>, which is the value of the enumerator declared at the same position
  after \<open>CT_NONE\<close> (\<open>CT_PANIC\<close> for 0, ..., \<open>CT_DEADLOCK\<close> for 13). The comparison is exact
  and case-sensitive: a string yields \<open>i + 1\<close> exactly when it equals that name byte for
  byte.
\<close>

theorem parse_ct_type_inverts_catalog:
  "i < ARRAY_SIZE ct_type \<Longrightarrow>
     parse_ct_type (ct_type ! i) = int i + 1
     \<and> parse_ct_type (ct_type ! i) = ctype_val (kinds ! i)
     \<and> (\<forall>what. parse_ct_type what = int i + 1 \<longleftrightarrow> cstr what = ct_type ! i)"
proof -
  assume "i < ARRAY_SIZE ct_type"
  then have i: "i < length ct_type" by (simp add: ARRAY_SIZE_def)
  have self: "cstr (ct_type ! i) = ct_type ! i"
    using i by (simp add: cstr_names)
  have a: "parse_ct_type (ct_type ! i) = int i + 1"
    using parse_hit[OF i self] .
  have b: "parse_ct_type (ct_type ! i) = ctype_val (kinds ! i)"
    using a i kinds_val[of i] by (simp add: length_ct_type)
  have c: "parse_ct_type what = int i + 1 \<longleftrightarrow> cstr what = ct_type ! i" for what
  proof
    assume r: "parse_ct_type what = int i + 1"
    from parse_cases[of what] r obtain k
      where k: "k < length ct_type" "cstr what = ct_type ! k" "parse_ct_type what = int k + 1"
      by auto
    with r have "k = i" by simp
    with k show "cstr what = ct_type ! i" by simp
  next
    assume "cstr what = ct_type ! i"
    then show "parse_ct_type what = int i + 1" using parse_hit[OF i] by simp
  qed
  from a b c show ?thesis by blast
qed

theorem parse_ct_type_inverts_catalog_witness:
  "parse_ct_type ''PANIC'' = ctype_val CT_PANIC
   \<and> parse_ct_type ''DEADLOCK'' = 14
   \<and> parse_ct_type ''DEADLOCK'' = ctype_val CT_DEADLOCK
   \<and> parse_ct_type ''Deadlock'' \<noteq> 14"
  using parse_ct_type_inverts_catalog[of 0] parse_ct_type_inverts_catalog[of 13]
  by (simp add: ARRAY_SIZE_def ct_type_def kinds_def cstr_def NUL_def)

text \<open>
  C3. A string that equals no name of the table is parsed to \<open>CT_NONE\<close>, a value and not an
  error, and \<open>do_crash\<close> on that value returns with the state as it was. \<^verbatim>\<open>"BOGUS"\<close> and the
  empty string are such strings.
\<close>

theorem parse_ct_type_unknown_is_none:
  "cstr what \<notin> set ct_type \<Longrightarrow>
     parse_ct_type what = ctype_val CT_NONE
     \<and> do_crash ar (parse_ct_type what) s = Returns () s"
  by (simp add: parse_miss do_crash_none)

theorem parse_ct_type_unknown_is_none_witness:
  "parse_ct_type ''BOGUS'' = ctype_val CT_NONE
   \<and> parse_ct_type '''' = ctype_val CT_NONE
   \<and> do_crash lp64 (parse_ct_type ''BOGUS'') (init_state 0) = Returns () (init_state 0)"
  using parse_ct_type_unknown_is_none[of "''BOGUS''" lp64 "init_state 0"]
    parse_ct_type_unknown_is_none[of "''''" lp64 "init_state 0"]
  by (auto simp: ct_type_def cstr_def NUL_def)

text \<open>
  C4. \<open>do_crash\<close> called with \<open>CT_NONE\<close> returns, and the state after it is the state before
  it: no event is logged and no variable changes.
\<close>

theorem do_crash_none_is_noop:
  "do_crash ar (ctype_val CT_NONE) s = Returns () s"
  by (simp add: do_crash_def)

text \<open>
  C2. A write of more than 31 bytes returns \<open>-E2BIG\<close> whatever the bytes are, and the state
  after it is the state before it: nothing was dispatched.
\<close>

theorem procfs_write_too_big:
  "count > 31 \<Longrightarrow> procfs_write ar ubuf count s = Returns (- E2BIG) s"
  by (simp add: procfs_write_def)

theorem procfs_write_too_big_witness:
  "procfs_write lp64 (''PANIC'' @ replicate 27 (CHR '' '')) 32 (init_state 0)
     = Returns (- 7) (init_state 0)"
  using procfs_write_too_big[of 32 lp64 "''PANIC'' @ replicate 27 (CHR '' '')" "init_state 0"]
  by (simp add: E2BIG_def)

section \<open>The list operation\<close>

lemma procfs_read_loop_eq:
  "procfs_read_loop m i = m @ concat (map (\<lambda>n. n @ [CHR 0x0A]) (drop i ct_type))"
proof (induction m i rule: procfs_read_loop.induct)
  case (1 m i)
  show ?case
  proof (cases "i < length ct_type")
    case True
    then have "procfs_read_loop m i = procfs_read_loop (seq_printf_line m (ct_type ! i)) (i + 1)"
      by (subst procfs_read_loop.simps) (simp add: ARRAY_SIZE_def)
    also have "\<dots> = seq_printf_line m (ct_type ! i)
                       @ concat (map (\<lambda>n. n @ [CHR 0x0A]) (drop (i + 1) ct_type))"
      using True by (intro "1.IH") (simp add: ARRAY_SIZE_def)
    also have "\<dots> = m @ concat (map (\<lambda>n. n @ [CHR 0x0A]) (ct_type ! i # drop (Suc i) ct_type))"
      by (simp add: seq_printf_line_def)
    also have "ct_type ! i # drop (Suc i) ct_type = drop i ct_type"
      using True by (rule Cons_nth_drop_Suc)
    finally show ?thesis .
  next
    case False
    then have "procfs_read_loop m i = m"
      by (subst procfs_read_loop.simps) (simp add: ARRAY_SIZE_def)
    with False show ?thesis by simp
  qed
qed

lemma procfs_read_eq:
  "procfs_read m = (0, m @ concat (map (\<lambda>n. n @ [CHR 0x0A]) ct_type))"
  by (simp add: procfs_read_def procfs_read_loop_eq)

text \<open>
  C6. \<open>procfs_read\<close> returns 0 and appends to the \<^verbatim>\<open>seq_file\<close> the names of the table, each
  followed by a line feed, in the order of the table: fourteen lines, \<^verbatim>\<open>PANIC\<close> first and
  \<^verbatim>\<open>DEADLOCK\<close> last. The text is a constant: it depends on no state, so every call
  prints the same.
\<close>

theorem procfs_read_lists_catalog:
  "procfs_read m = (0, m @ concat (map (\<lambda>n. n @ [CHR 0x0A]) ct_type))
   \<and> ct_type = [''PANIC'', ''BUG'', ''EXCEPTION'', ''LOOP'', ''OVERFLOW'', ''CORRUPT_STACK'',
                ''UNALIGNED_LOAD_STORE_WRITE'', ''OVERWRITE_ALLOCATION'', ''WRITE_AFTER_FREE'',
                ''SOFTLOCKUP'', ''HARDLOCKUP'', ''HUNG_TASK'', ''SCHEDULING_WHILE_ATOMIC'',
                ''DEADLOCK'']
   \<and> length ct_type = 14
   \<and> hd ct_type = ''PANIC''
   \<and> last ct_type = ''DEADLOCK''
   \<and> snd (procfs_read []) \<noteq> []"
proof -
  have a: "procfs_read m = (0, m @ concat (map (\<lambda>n. n @ [CHR 0x0A]) ct_type))"
    by (rule procfs_read_eq)
  have b: "ct_type = [''PANIC'', ''BUG'', ''EXCEPTION'', ''LOOP'', ''OVERFLOW'', ''CORRUPT_STACK'',
                ''UNALIGNED_LOAD_STORE_WRITE'', ''OVERWRITE_ALLOCATION'', ''WRITE_AFTER_FREE'',
                ''SOFTLOCKUP'', ''HARDLOCKUP'', ''HUNG_TASK'', ''SCHEDULING_WHILE_ATOMIC'',
                ''DEADLOCK'']"
    by (rule ct_type_def)
  have c: "length ct_type = 14"
    by (rule length_ct_type)
  have d: "hd ct_type = ''PANIC''"
    by (simp add: ct_type_def)
  have e: "last ct_type = ''DEADLOCK''"
    by (simp add: ct_type_def)
  have "ct_type \<noteq> []"
    using c by auto
  then have f: "snd (procfs_read []) \<noteq> []"
    by (simp add: procfs_read_eq)
  from a b c d e f show ?thesis
    by (intro conjI)
qed

section \<open>The OVERFLOW routine\<close>

text \<open>
  On a stack that holds them, the recursion ends when the counter reaches 0: after
  \<open>unat (recur_count s - 1) + 1\<close> frames, which is 40 when the counter starts at 40.
\<close>

lemma recursive_loop_returns:
  "unat (recur_count s - 1) = n \<Longrightarrow>
   stack_used s + Suc n * frame_size ar \<le> THREAD_SIZE ar \<Longrightarrow>
   recursive_loop ar a s =
     Returns 0 (s\<lparr>recur_count := 0,
                  trace := trace s @ replicate (Suc n)
                             (EvStackFill (BUFSIZE ar) (BUFSIZE ar) 0xff)\<rparr>)"
proof (induction n arbitrary: s)
  case 0
  have z: "recur_count s - 1 = 0"
    using "0.prems"(1) by (simp add: unat_eq_0)
  have fits: "\<not> THREAD_SIZE ar < stack_used s + frame_size ar"
    using "0.prems"(2) by simp
  show ?case
    using z fits by (subst recursive_loop.simps) (simp add: Let_def log_def)
next
  case (Suc n)
  let ?ev = "EvStackFill (BUFSIZE ar) (BUFSIZE ar) 0xff"
  let ?s2 = "s\<lparr>stack_used := stack_used s + frame_size ar, trace := trace s @ [?ev],
               recur_count := recur_count s - 1\<rparr>"
  have ne: "recur_count s - 1 \<noteq> 0"
    using Suc.prems(1) by auto
  have fits: "\<not> THREAD_SIZE ar < stack_used s + frame_size ar"
    using Suc.prems(2) by simp
  have step: "recursive_loop ar a s =
      (case recursive_loop ar a ?s2 of
         Returns r s3 \<Rightarrow> Returns r (s3\<lparr>stack_used := stack_used s\<rparr>)
       | Stops st s3 \<Rightarrow> Stops st s3)"
    using ne fits by (subst recursive_loop.simps) (simp add: Let_def log_def)
  have "unat (recur_count s - 1 - 1) = unat (recur_count s - 1) - 1"
    using ne by (rule unat_minus_one)
  then have n: "unat (recur_count ?s2 - 1) = n"
    using Suc.prems(1) by simp
  have room: "stack_used ?s2 + Suc n * frame_size ar \<le> THREAD_SIZE ar"
    using Suc.prems(2) by simp
  have "recursive_loop ar a ?s2 =
      Returns 0 (?s2\<lparr>recur_count := 0, trace := trace ?s2 @ replicate (Suc n) ?ev\<rparr>)"
    using n room by (rule Suc.IH)
  then show ?case
    unfolding step by (simp add: replicate_append_same)
qed








section \<open>The DEADLOCK routine\<close>

lemma deadlock_splat_free:
  "held s = {} \<Longrightarrow>
     deadlock_splat s =
       Returns () (s\<lparr>trace := trace s @
         [EvSpinLock lock1, EvSpinLock lock2, EvSpinUnlock lock2, EvSpinUnlock lock1,
          EvSpinLock lock2, EvSpinLock lock1, EvSpinUnlock lock1, EvSpinUnlock lock2]\<rparr>)"
  by (simp add: deadlock_splat_def spin_lock_def spin_unlock_def log_def)

text \<open>
  C8. Called with both spinlocks free (no other thread holds them), \<open>deadlock_splat\<close>
  performs exactly lock 1, lock 2, unlock 2, unlock 1, lock 2, lock 1, unlock 1, unlock 2,
  in that order, and returns with both locks free again and nothing else changed.
  \<open>do_crash\<close> on \<open>CT_DEADLOCK\<close> is that call.
\<close>

theorem deadlock_splat_sequence:
  "held s = {} \<Longrightarrow>
     deadlock_splat s =
       Returns () (s\<lparr>trace := trace s @
         [EvSpinLock lock1, EvSpinLock lock2, EvSpinUnlock lock2, EvSpinUnlock lock1,
          EvSpinLock lock2, EvSpinLock lock1, EvSpinUnlock lock1, EvSpinUnlock lock2]\<rparr>)
     \<and> do_crash ar (ctype_val CT_DEADLOCK) s = deadlock_splat s"
  by (simp add: deadlock_splat_free do_crash_def)

theorem deadlock_splat_sequence_witness:
  "held (init_state 0) = {}
   \<and> do_crash lp64 (ctype_val CT_DEADLOCK) (init_state 0) =
       Returns () ((init_state 0)\<lparr>trace :=
         [EvSpinLock lock1, EvSpinLock lock2, EvSpinUnlock lock2, EvSpinUnlock lock1,
          EvSpinLock lock2, EvSpinLock lock1, EvSpinUnlock lock1, EvSpinUnlock lock2]\<rparr>)"
  using deadlock_splat_sequence[of "init_state 0" lp64]
  by (simp add: init_state_def)

section \<open>The OVERWRITE\_ALLOCATION routine\<close>

lemma kmalloc_ok:
  "len \<le> avail s \<Longrightarrow>
     kmalloc len s =
       (Ptr (brk s),
        s\<lparr>heap := (heap s)(brk s \<mapsto> Live len), brk := brk s + 1, avail := avail s - len,
          trace := trace s @ [EvKmalloc (Ptr (brk s)) len]\<rparr>)"
  by (simp add: kmalloc_def log_def)

text \<open>
  C9. With \<^verbatim>\<open>sizeof(unsigned long)\<close> 4 or 8 and a \<^verbatim>\<open>kmalloc\<close> that succeeds, \<open>do_crash\<close> on
  \<open>CT_OVERWRITE_ALLOCATION\<close> allocates a block of 1020 bytes, stores one
  \<^verbatim>\<open>unsigned long\<close> at element index \<open>1024 div sizeof_ulong\<close>, which is byte offset 1024 and
  so past the 1020 bytes of the block (the guarded store at that place fails), frees the
  block and returns.
\<close>

theorem overwrite_allocation_out_of_bounds:
  "sizeof_ulong ar = 4 \<or> sizeof_ulong ar = 8 \<Longrightarrow> 1020 \<le> avail s \<Longrightarrow>
     do_crash ar (ctype_val CT_OVERWRITE_ALLOCATION) s =
       Returns () (s\<lparr>heap := (heap s)(brk s \<mapsto> Freed 1020), brk := brk s + 1,
                      trace := trace s @
                        [EvKmalloc (Ptr (brk s)) 1020,
                         EvBadStore (Ptr (brk s)) 1024 (sizeof_ulong ar),
                         EvKfree (Ptr (brk s))]\<rparr>)
     \<and> (1024 div sizeof_ulong ar) * sizeof_ulong ar = 1024
     \<and> fst (kmalloc 1020 s) = Ptr (brk s)
     \<and> heap (snd (kmalloc 1020 s)) (brk s) = Some (Live 1020)
     \<and> checked_store (fst (kmalloc 1020 s)) ((1024 div sizeof_ulong ar) * sizeof_ulong ar)
           (sizeof_ulong ar) (snd (kmalloc 1020 s)) = None"
proof -
  assume sz: "sizeof_ulong ar = 4 \<or> sizeof_ulong ar = 8" and mem: "1020 \<le> avail s"
  have off: "(1024 div sizeof_ulong ar) * sizeof_ulong ar = 1024"
    using sz by auto
  have pos: "0 < sizeof_ulong ar"
    using sz by auto
  have km: "kmalloc 1020 s =
       (Ptr (brk s),
        s\<lparr>heap := (heap s)(brk s \<mapsto> Live 1020), brk := brk s + 1, avail := avail s - 1020,
          trace := trace s @ [EvKmalloc (Ptr (brk s)) 1020]\<rparr>)"
    using mem by (rule kmalloc_ok)
  have chk: "checked_store (fst (kmalloc 1020 s)) ((1024 div sizeof_ulong ar) * sizeof_ulong ar)
           (sizeof_ulong ar) (snd (kmalloc 1020 s)) = None"
    unfolding km off using pos by (simp add: checked_store_def)
  have run: "do_crash ar (ctype_val CT_OVERWRITE_ALLOCATION) s =
       Returns () (s\<lparr>heap := (heap s)(brk s \<mapsto> Freed 1020), brk := brk s + 1,
                      trace := trace s @
                        [EvKmalloc (Ptr (brk s)) 1020,
                         EvBadStore (Ptr (brk s)) 1024 (sizeof_ulong ar),
                         EvKfree (Ptr (brk s))]\<rparr>)"
    using pos mem
    by (simp add: do_crash_def overwrite_allocation_def km off store_def checked_store_def
        kfree_def log_def)
  from run off km chk show ?thesis by simp
qed

theorem overwrite_allocation_out_of_bounds_witness:
  "do_crash lp64 (ctype_val CT_OVERWRITE_ALLOCATION) (init_state 4096) =
     Returns () ((init_state 4096)\<lparr>heap := (\<lambda>a. None)(0 \<mapsto> Freed 1020), brk := 1,
                    trace := [EvKmalloc (Ptr 0) 1020, EvBadStore (Ptr 0) 1024 8, EvKfree (Ptr 0)]\<rparr>)
   \<and> checked_store (Ptr 0) 1024 8 (snd (kmalloc 1020 (init_state 4096))) = None"
  using overwrite_allocation_out_of_bounds[of lp64 "init_state 4096"]
  by (auto simp: lp64_def init_state_def)

section \<open>The trigger operation\<close>

lemma isspace_not_NUL: "isspace c \<Longrightarrow> c \<noteq> NUL"
  by (auto simp: isspace_def NUL_def)

lemma cstr_append_NUL: "NUL \<notin> set q \<Longrightarrow> cstr (q @ NUL # zs) = q"
proof -
  assume "NUL \<notin> set q"
  then have "\<And>x. x \<in> set q \<Longrightarrow> x \<noteq> NUL" by auto
  then have "takeWhile (\<lambda>c. c \<noteq> NUL) (q @ NUL # zs) = q @ takeWhile (\<lambda>c. c \<noteq> NUL) (NUL # zs)"
    by (rule takeWhile_append2)
  then show ?thesis by (simp add: cstr_def)
qed

lemma strim_end_spaces:
  "list_all isspace ws \<Longrightarrow>
   strim_end (q @ ws @ zs) (length q + length ws) = strim_end (q @ ws @ zs) (length q)"
proof (induction ws arbitrary: zs rule: rev_induct)
  case Nil
  then show ?case by simp
next
  case (snoc x ws)
  have sp: "isspace x" and rest: "list_all isspace ws"
    using snoc.prems by simp_all
  have nth: "(q @ (ws @ [x]) @ zs) ! (length q + length ws) = x"
    by (simp add: nth_append)
  have "strim_end (q @ (ws @ [x]) @ zs) (length q + length (ws @ [x]))
        = strim_end (q @ (ws @ [x]) @ zs) (Suc (length q + length ws))"
    by simp
  also have "\<dots> = strim_end (q @ (ws @ [x]) @ zs) (length q + length ws)"
    using sp nth by simp
  also have "\<dots> = strim_end (q @ ws @ ([x] @ zs)) (length q + length ws)"
    by simp
  also have "\<dots> = strim_end (q @ ws @ ([x] @ zs)) (length q)"
    using rest by (rule snoc.IH)
  finally show ?case by simp
qed

lemma strim_end_nonspace:
  "q \<noteq> [] \<Longrightarrow> \<not> isspace (last q) \<Longrightarrow> strim_end (q @ r) (length q) = length q"
proof -
  assume "q \<noteq> []" and ns: "\<not> isspace (last q)"
  then obtain q' x where q: "q = q' @ [x]"
    by (cases q rule: rev_cases) auto
  have "(q @ r) ! length q' = x"
    by (simp add: q nth_append)
  moreover have "\<not> isspace x"
    using ns by (simp add: q)
  ultimately have "strim_end (q @ r) (Suc (length q')) = Suc (length q')"
    by simp
  then show ?thesis by (simp add: q)
qed

lemma cstr_strim:
  assumes "q \<noteq> []" and "NUL \<notin> set q" and "\<not> isspace (last q)" and "list_all isspace ws"
  shows "cstr (strim (q @ ws @ NUL # zs)) = q"
proof -
  let ?b = "q @ ws @ NUL # zs"
  have "NUL \<notin> set ws"
    using assms(4) isspace_not_NUL by (auto simp: list_all_iff)
  then have "NUL \<notin> set (q @ ws)"
    using assms(2) by simp
  then have "cstr ((q @ ws) @ NUL # zs) = q @ ws"
    by (rule cstr_append_NUL)
  then have len: "strlen ?b = length q + length ws"
    by (simp add: strlen_def)
  have "strim_end ?b (length q + length ws) = strim_end ?b (length q)"
    using assms(4) by (rule strim_end_spaces)
  also have "\<dots> = length q"
    using assms(1,3) by (rule strim_end_nonspace)
  finally have e: "strim_end ?b (length q + length ws) = length q" .
  have "strim ?b = ?b[length q := NUL]"
    using assms(1) by (simp add: strim_def len e Let_def)
  also have "\<dots> = q @ ((ws @ NUL # zs)[0 := NUL])"
    by (simp add: list_update_append)
  also have "(ws @ NUL # zs)[0 := NUL] = NUL # tl (ws @ NUL # zs)"
    by (cases ws) simp_all
  finally have "strim ?b = q @ NUL # tl (ws @ NUL # zs)" .
  then show ?thesis
    using assms(2) by (simp add: cstr_append_NUL)
qed

lemma request_buffer:
  assumes "count \<le> 31" and "count \<le> length ubuf" and "take count ubuf = p"
  shows "copy_from_user (replicate 32 NUL) ubuf count = Some (p @ NUL # replicate (31 - count) NUL)"
    and "(p @ NUL # replicate (31 - count) NUL)[count := NUL] = p @ NUL # replicate (31 - count) NUL"
proof -
  have len: "length p = count"
    using assms(2,3) by auto
  have "replicate (32 - count) NUL = NUL # replicate (31 - count) NUL"
    using assms(1) by (cases "32 - count") (auto simp: Suc_diff_le)
  then show "copy_from_user (replicate 32 NUL) ubuf count = Some (p @ NUL # replicate (31 - count) NUL)"
    using assms by (simp add: copy_from_user_def)
  show "(p @ NUL # replicate (31 - count) NUL)[count := NUL] = p @ NUL # replicate (31 - count) NUL"
    using len by (simp add: list_update_append)
qed

lemma procfs_write_dispatch:
  assumes "count \<le> 31" and "count \<le> length ubuf"
  shows "procfs_write ar ubuf count s =
     (case do_crash ar (parse_ct_type (strim (take count ubuf @ NUL # replicate (31 - count) NUL))) s of
        Returns _ s' \<Rightarrow> Returns (int count) s'
      | Stops r s' \<Rightarrow> Stops r s')"
  using assms request_buffer[OF assms refl]
  by (simp add: procfs_write_def)

lemma procfs_write_trailing:
  assumes "q \<noteq> []" and "NUL \<notin> set q" and "\<not> isspace (last q)" and "list_all isspace ws"
    and "length q + length ws \<le> 31"
  shows "procfs_write ar (q @ ws) (length q + length ws) s =
     (case do_crash ar (parse_ct_type q) s of
        Returns _ s' \<Rightarrow> Returns (int (length q + length ws)) s'
      | Stops r s' \<Rightarrow> Stops r s')"
proof -
  let ?zs = "replicate (31 - (length q + length ws)) NUL"
  have "cstr (strim (q @ ws @ NUL # ?zs)) = q"
    using assms(1-4) by (rule cstr_strim)
  moreover have "cstr q = q"
    using assms(2) by (auto simp: cstr_def takeWhile_eq_all_conv)
  ultimately have "parse_ct_type (strim (q @ ws @ NUL # ?zs)) = parse_ct_type q"
    by (intro parse_cstr_cong) simp
  then show ?thesis
    using assms(5) procfs_write_dispatch[of "length q + length ws" "q @ ws" ar s]
    by simp
qed

lemma ct_type_shape:
  "n \<in> set ct_type \<Longrightarrow> n \<noteq> [] \<and> NUL \<notin> set n \<and> \<not> isspace (last n) \<and> \<not> isspace (hd n)"
  by (auto simp: ct_type_def isspace_def NUL_def)

lemma procfs_write_leading:
  assumes "n \<in> set ct_type" and "list_all isspace ws" and "ws \<noteq> []"
    and "length ws + length n \<le> 31"
  shows "procfs_write ar (ws @ n) (length ws + length n) s = Returns (int (length ws + length n)) s"
proof -
  have shape: "n \<noteq> []" "NUL \<notin> set n" "\<not> isspace (last n)"
    using ct_type_shape[OF assms(1)] by simp_all
  have nonul: "NUL \<notin> set (ws @ n)"
    using assms(2) shape(2) isspace_not_NUL by (auto simp: list_all_iff)
  have "isspace (hd (ws @ n))"
    using assms(2,3) by (cases ws) simp_all
  then have "ws @ n \<notin> set ct_type"
    using ct_type_shape[of "ws @ n"] by blast
  moreover have "cstr (ws @ n) = ws @ n"
    using nonul by (auto simp: cstr_def takeWhile_eq_all_conv)
  ultimately have miss: "parse_ct_type (ws @ n) = 0"
    by (simp add: parse_miss)
  have "procfs_write ar ((ws @ n) @ []) (length (ws @ n) + length ([] :: char list)) s =
     (case do_crash ar (parse_ct_type (ws @ n)) s of
        Returns _ s' \<Rightarrow> Returns (int (length (ws @ n) + length ([] :: char list))) s'
      | Stops r s' \<Rightarrow> Stops r s')"
    using shape nonul assms(4) by (intro procfs_write_trailing) simp_all
  then show ?thesis
    by (simp add: miss do_crash_none)
qed

text \<open>
  C5, as the code has it. \<open>parse_ct_type\<close> compares the string as it is given. The
  trigger path terminates the payload with NUL and calls \<^verbatim>\<open>strim\<close>, whose returned pointer
  it discards: every trailing white-space byte is cut off and nothing at the front is. So
  for a name \<open>n\<close> of the table and white space \<open>ws\<close> (a single line feed included) within
  the 31 bytes, the payload \<open>n @ ws\<close> dispatches the kind that \<open>n\<close> parses to, and the
  payload \<open>ws @ n\<close> with \<open>ws\<close> not empty dispatches nothing.
\<close>

theorem procfs_write_strips_trailing_space:
  "n \<in> set ct_type \<Longrightarrow> list_all isspace ws \<Longrightarrow> length n + length ws \<le> 31 \<Longrightarrow>
     procfs_write ar (n @ ws) (length n + length ws) s =
       (case do_crash ar (parse_ct_type n) s of
          Returns _ s' \<Rightarrow> Returns (int (length n + length ws)) s'
        | Stops r s' \<Rightarrow> Stops r s')
     \<and> (ws \<noteq> [] \<longrightarrow>
          procfs_write ar (ws @ n) (length ws + length n) s
            = Returns (int (length ws + length n)) s)"
proof -
  assume n: "n \<in> set ct_type" and ws: "list_all isspace ws"
    and len: "length n + length ws \<le> 31"
  have a: "procfs_write ar (n @ ws) (length n + length ws) s =
       (case do_crash ar (parse_ct_type n) s of
          Returns _ s' \<Rightarrow> Returns (int (length n + length ws)) s'
        | Stops r s' \<Rightarrow> Stops r s')"
    using ct_type_shape[OF n] ws len by (intro procfs_write_trailing) simp_all
  have b: "procfs_write ar (ws @ n) (length ws + length n) s
            = Returns (int (length ws + length n)) s" if "ws \<noteq> []"
    using n ws that len by (intro procfs_write_leading) simp_all
  from a b show ?thesis by blast
qed

theorem procfs_write_strips_trailing_space_witness:
  "procfs_write lp64 (''PANIC'' @ [CHR 0x0A]) 6 (init_state 0)
     = Stops (Panicked ''have a nice day... ;-)'') (init_state 0)
   \<and> procfs_write lp64 ([CHR 0x0A] @ ''PANIC'') 6 (init_state 0) = Returns 6 (init_state 0)"
  using procfs_write_strips_trailing_space[of "''PANIC''" "[CHR 0x0A]" lp64 "init_state 0"]
    parse_hit[of 0 "''PANIC''"]
  by (simp add: ct_type_def isspace_def cstr_def NUL_def do_crash_def panic_def eval_nat_numeral)

text \<open>
  The claim as stated fails for white space in front: a space before \<^verbatim>\<open>PANIC\<close> is kept, the
  string matches no name and the write returns 6 with nothing dispatched, where \<^verbatim>\<open>PANIC\<close>
  alone panics.
\<close>

theorem procfs_write_leading_space_counterexample:
  "procfs_write lp64 '' PANIC'' 6 (init_state 0) = Returns 6 (init_state 0)
   \<and> procfs_write lp64 ''PANIC'' 5 (init_state 0)
       = Stops (Panicked ''have a nice day... ;-)'') (init_state 0)"
proof -
  have "''PANIC'' \<in> set ct_type"
    by (simp add: ct_type_def)
  moreover have "list_all isspace '' ''"
    by (simp add: isspace_def)
  ultimately have a: "procfs_write lp64 ('' '' @ ''PANIC'') (length '' '' + length ''PANIC'')
       (init_state 0) = Returns (int (length '' '' + length ''PANIC'')) (init_state 0)"
    by (intro procfs_write_leading) simp_all
  have "parse_ct_type ''PANIC'' = 1"
    using parse_hit[of 0 "''PANIC''"] by (simp add: ct_type_def cstr_def NUL_def)
  moreover have "procfs_write lp64 (''PANIC'' @ []) (length ''PANIC'' + length ([] :: char list))
       (init_state 0) =
     (case do_crash lp64 (parse_ct_type ''PANIC'') (init_state 0) of
        Returns _ s' \<Rightarrow> Returns (int (length ''PANIC'' + length ([] :: char list))) s'
      | Stops r s' \<Rightarrow> Stops r s')"
    by (intro procfs_write_trailing) (simp_all add: NUL_def isspace_def)
  ultimately have b: "procfs_write lp64 ''PANIC'' 5 (init_state 0)
       = Stops (Panicked ''have a nice day... ;-)'') (init_state 0)"
    by (simp add: do_crash_def panic_def eval_nat_numeral)
  from a b show ?thesis by (simp add: eval_nat_numeral)
qed

lemma procfs_write_results:
  "procfs_write ar ubuf count s = Returns r s' \<Longrightarrow> r = - E2BIG \<or> r = - EFAULT \<or> r = int count"
  by (auto simp: procfs_write_def Let_def split: if_splits option.splits outcome.splits)

lemma procfs_write_ok:
  "count \<le> 31 \<Longrightarrow> copy_from_user (replicate 32 NUL) ubuf count = Some buf1 \<Longrightarrow>
   do_crash ar (parse_ct_type (strim (buf1[count := NUL]))) s = Returns u s' \<Longrightarrow>
   procfs_write ar ubuf count s = Returns (int count) s'"
  by (simp add: procfs_write_def)

lemma procfs_write_deadlock:
  assumes "held s = {}" and "list_all isspace ws" and "8 + length ws \<le> 31"
  shows "procfs_write ar (''DEADLOCK'' @ ws) (8 + length ws) s =
     Returns (int (8 + length ws)) (s\<lparr>trace := trace s @
         [EvSpinLock lock1, EvSpinLock lock2, EvSpinUnlock lock2, EvSpinUnlock lock1,
          EvSpinLock lock2, EvSpinLock lock1, EvSpinUnlock lock1, EvSpinUnlock lock2]\<rparr>)"
proof -
  have "parse_ct_type ''DEADLOCK'' = 14"
    using parse_hit[of 13 "''DEADLOCK''"] by (simp add: ct_type_def cstr_def NUL_def)
  then have crash: "do_crash ar (parse_ct_type ''DEADLOCK'') s = deadlock_splat s"
    by (simp add: do_crash_def)
  have "procfs_write ar (''DEADLOCK'' @ ws) (length ''DEADLOCK'' + length ws) s =
     (case do_crash ar (parse_ct_type ''DEADLOCK'') s of
        Returns _ s' \<Rightarrow> Returns (int (length ''DEADLOCK'' + length ws)) s'
      | Stops r s' \<Rightarrow> Stops r s')"
    using assms(2,3) by (intro procfs_write_trailing) (simp_all add: NUL_def isspace_def)
  moreover have "length ''DEADLOCK'' = 8"
    by simp
  ultimately show ?thesis
    unfolding crash deadlock_splat_free[OF assms(1)] by (simp only: outcome.case)
qed

text \<open>
  C10. A write of at most 31 bytes whose bytes can be copied, and whose dispatched routine
  returns, returns exactly \<open>count\<close>; whenever \<open>procfs_write\<close> returns, its result is
  \<open>-E2BIG\<close>, \<open>-EFAULT\<close> or \<open>count\<close>. The routine returns for every request that names no
  entry of the table (the kind is then \<open>CT_NONE\<close>) and, with both spinlocks free, for
  \<^verbatim>\<open>DEADLOCK\<close>.
\<close>

theorem procfs_write_returns_count:
  "(count \<le> 31 \<and> copy_from_user (replicate 32 NUL) ubuf count = Some buf1
      \<and> do_crash ar (parse_ct_type (strim (buf1[count := NUL]))) s = Returns u s'
      \<longrightarrow> procfs_write ar ubuf count s = Returns (int count) s')
   \<and> (procfs_write ar ubuf count s = Returns r s''
      \<longrightarrow> r = - E2BIG \<or> r = - EFAULT \<or> r = int count)
   \<and> (count \<le> 31 \<and> copy_from_user (replicate 32 NUL) ubuf count = Some buf1
      \<and> cstr (strim (buf1[count := NUL])) \<notin> set ct_type
      \<longrightarrow> procfs_write ar ubuf count s = Returns (int count) s)
   \<and> (held s = {} \<and> list_all isspace ws \<and> 8 + length ws \<le> 31
      \<longrightarrow> procfs_write ar (''DEADLOCK'' @ ws) (8 + length ws) s =
            Returns (int (8 + length ws)) (s\<lparr>trace := trace s @
              [EvSpinLock lock1, EvSpinLock lock2, EvSpinUnlock lock2, EvSpinUnlock lock1,
               EvSpinLock lock2, EvSpinLock lock1, EvSpinUnlock lock1, EvSpinUnlock lock2]\<rparr>))"
proof (intro conjI impI)
  assume "count \<le> 31 \<and> copy_from_user (replicate 32 NUL) ubuf count = Some buf1
      \<and> do_crash ar (parse_ct_type (strim (buf1[count := NUL]))) s = Returns u s'"
  then show "procfs_write ar ubuf count s = Returns (int count) s'"
    using procfs_write_ok by blast
next
  assume "procfs_write ar ubuf count s = Returns r s''"
  then show "r = - E2BIG \<or> r = - EFAULT \<or> r = int count"
    by (rule procfs_write_results)
next
  assume h: "count \<le> 31 \<and> copy_from_user (replicate 32 NUL) ubuf count = Some buf1
      \<and> cstr (strim (buf1[count := NUL])) \<notin> set ct_type"
  then have "do_crash ar (parse_ct_type (strim (buf1[count := NUL]))) s = Returns () s"
    by (simp add: parse_miss do_crash_none)
  with h show "procfs_write ar ubuf count s = Returns (int count) s"
    using procfs_write_ok by blast
next
  assume "held s = {} \<and> list_all isspace ws \<and> 8 + length ws \<le> 31"
  then show "procfs_write ar (''DEADLOCK'' @ ws) (8 + length ws) s =
            Returns (int (8 + length ws)) (s\<lparr>trace := trace s @
              [EvSpinLock lock1, EvSpinLock lock2, EvSpinUnlock lock2, EvSpinUnlock lock1,
               EvSpinLock lock2, EvSpinLock lock1, EvSpinUnlock lock1, EvSpinUnlock lock2]\<rparr>)"
    using procfs_write_deadlock by blast
qed

theorem procfs_write_returns_count_witness:
  "procfs_write lp64 (''DEADLOCK'' @ [CHR 0x0A]) 9 (init_state 0) =
     Returns 9 ((init_state 0)\<lparr>trace :=
       [EvSpinLock lock1, EvSpinLock lock2, EvSpinUnlock lock2, EvSpinUnlock lock1,
        EvSpinLock lock2, EvSpinLock lock1, EvSpinUnlock lock1, EvSpinUnlock lock2]\<rparr>)
   \<and> procfs_write lp64 ''BOGUS'' 5 (init_state 0) = Returns 5 (init_state 0)"
proof -
  have cp: "copy_from_user (replicate 32 NUL) ''BOGUS'' 5
              = Some (''BOGUS'' @ NUL # replicate (31 - 5) NUL)"
    by (rule request_buffer(1)) simp_all
  have up: "(''BOGUS'' @ NUL # replicate (31 - 5) NUL)[5 := NUL]
              = ''BOGUS'' @ NUL # replicate (31 - 5) NUL"
    by (rule request_buffer(2)[of 5 "''BOGUS''"]) simp_all
  have "cstr (strim (''BOGUS'' @ [] @ NUL # replicate (31 - 5) NUL)) = ''BOGUS''"
    by (rule cstr_strim) (simp_all add: NUL_def isspace_def)
  then have miss: "cstr (strim ((''BOGUS'' @ NUL # replicate (31 - 5) NUL)[5 := NUL]))
                     \<notin> set ct_type"
    unfolding up by (simp add: ct_type_def)
  have a: "procfs_write lp64 ''BOGUS'' 5 (init_state 0) = Returns 5 (init_state 0)"
    using procfs_write_returns_count[of 5 "''BOGUS''" "''BOGUS'' @ NUL # replicate (31 - 5) NUL"
        lp64 "init_state 0"] cp miss
    by simp
  have b: "procfs_write lp64 (''DEADLOCK'' @ [CHR 0x0A]) 9 (init_state 0) =
     Returns 9 ((init_state 0)\<lparr>trace :=
       [EvSpinLock lock1, EvSpinLock lock2, EvSpinUnlock lock2, EvSpinUnlock lock1,
        EvSpinLock lock2, EvSpinLock lock1, EvSpinUnlock lock1, EvSpinUnlock lock2]\<rparr>)"
    using procfs_write_returns_count[of _ _ _ lp64 "init_state 0" _ _ _ _ "[CHR 0x0A]"]
    by (simp add: init_state_def isspace_def)
  from a b show ?thesis by simp
qed

end
